theory Spec2Isabelle
  imports Complex_Main
begin

section \<open>Values, errors and Python indexing\<close>

text \<open>
  The notebook \<^verbatim>\<open>wave_plate_tsp.ipynb\<close> computes with NumPy arrays of IEEE doubles.
  Every angle of the table \<^verbatim>\<open>ANGLES_6s\<close> is a multiple of one half of small magnitude, and
  so is every difference, maximum and sum the notebook forms from them; doubles represent
  these numbers exactly, so a finite array entry is modelled by a rational number.
  (On other finite doubles a subtraction may round; the absolute value, the maximum, the
  equation \<open>|a - b| = |b - a|\<close> and \<open>a - a = 0\<close> are exact there too.)
  A one-dimensional array is a list, a two-dimensional array a list of rows of equal
  length. Exceptions are values: a function that can raise returns \<open>error + 'a\<close>,
  with \<open>Inl\<close> the exception.
\<close>

datatype error =
  IndexError | ValueError | OverflowError | ZeroDivisionError | FileNotFoundError

text \<open>Running a fallible function over a list, left to right, stopping at the first exception.\<close>

fun traverse :: "('a \<Rightarrow> error + 'b) \<Rightarrow> 'a list \<Rightarrow> error + 'b list" where
  "traverse f [] = Inr []"
| "traverse f (x # xs) =
     (case f x of
        Inl e \<Rightarrow> Inl e
      | Inr y \<Rightarrow> (case traverse f xs of Inl e \<Rightarrow> Inl e | Inr ys \<Rightarrow> Inr (y # ys)))"

text \<open>
  \<^verbatim>\<open>xs[i]\<close> on a list or along one axis of an array: an index from \<open>- len\<close> to \<open>-1\<close>
  counts from the end, anything outside \<open>- len .. len - 1\<close> raises \<^verbatim>\<open>IndexError\<close>.
\<close>

definition py_index :: "'a list \<Rightarrow> int \<Rightarrow> error + 'a" where
  "py_index xs i =
     (if 0 \<le> i \<and> i < int (length xs) then Inr (xs ! nat i)
      else if i < 0 \<and> - int (length xs) \<le> i then Inr (xs ! nat (int (length xs) + i))
      else Inl IndexError)"

section \<open>The base angle table\<close>

text \<open>
  \<^verbatim>\<open>ANGLES_6s = np.array([[0, 0], [45, 0], [22.5, 0], [-22.5, 0], [0, 45], [0, -45]])\<close>:
  the (HWP, QWP) angles of the projections H, V, D, A, R, L.
\<close>

definition ANGLES_6s :: "rat list list" where
  "ANGLES_6s = [[0, 0], [45, 0], [45 / 2, 0], [- (45 / 2), 0], [0, 45], [0, - 45]]"

section \<open>The adjacency matrix: \<^verbatim>\<open>adj_mat\<close>\<close>

text \<open>
  \<^verbatim>\<open>angular_diff = angles - angles[:, None]\<close>: broadcasting the shapes \<open>(N, C)\<close> and
  \<open>(N, 1, C)\<close> gives the shape \<open>(N, N, C)\<close> with
  \<open>angular_diff[i][j][k] = angles[j][k] - angles[i][k]\<close>.
\<close>

definition angular_diff :: "rat list list \<Rightarrow> rat list list list" where
  "angular_diff angles =
     map (\<lambda>a_i. map (\<lambda>a_j. map (\<lambda>(x, y). x - y) (zip a_j a_i)) angles) angles"

text \<open>
  \<^verbatim>\<open>np.max\<close> along an axis: the reduction has no identity, so an axis of length zero raises
  \<^verbatim>\<open>ValueError\<close>.
\<close>

fun np_max :: "rat list \<Rightarrow> error + rat" where
  "np_max [] = Inl ValueError"
| "np_max (x # xs) = Inr (fold max xs x)"

text \<open>\<^verbatim>\<open>adjacency_matrix = np.max(np.abs(angular_diff), axis=2)\<close>\<close>

definition adj_mat :: "rat list list \<Rightarrow> error + rat list list" where
  "adj_mat angles =
     traverse (\<lambda>row. traverse (\<lambda>v. np_max (map abs v)) row) (angular_diff angles)"

section \<open>The cycle evaluator: \<^verbatim>\<open>cycle_length\<close>, speedup and reduction\<close>

text \<open>
  \<^verbatim>\<open>
  edges = [[path[n], path[n+1]] for n in range(len(path) - 1)]
  edges += [[path[-1], path[0]]]
  cycle_length = sum([adj_matrix[edge[0]][edge[1]] for edge in edges])
  \<close>
  The comprehension reads \<open>path\<close> inside its range only; \<^verbatim>\<open>path[-1]\<close> raises on the empty
  path; every matrix access is a Python index along the rows, then along the row.
\<close>

definition matrix_at :: "rat list list \<Rightarrow> int \<times> int \<Rightarrow> error + rat" where
  "matrix_at adj_matrix edge =
     (case py_index adj_matrix (fst edge) of
        Inl e \<Rightarrow> Inl e
      | Inr row \<Rightarrow> py_index row (snd edge))"

definition cycle_length :: "rat list list \<Rightarrow> int list \<Rightarrow> error + rat" where
  "cycle_length adj_matrix path =
     (let edges = map (\<lambda>n. (path ! n, path ! (n + 1))) [0 ..< length path - 1] in
      case py_index path (- 1) of
        Inl e \<Rightarrow> Inl e
      | Inr l \<Rightarrow>
          (case py_index path 0 of
             Inl e \<Rightarrow> Inl e
           | Inr f \<Rightarrow>
               (case traverse (matrix_at adj_matrix) (edges @ [(l, f)]) of
                  Inl e \<Rightarrow> Inl e
                | Inr ws \<Rightarrow> Inr (sum_list ws))))"

text \<open>
  The one-qubit cells: \<^verbatim>\<open>tsp_cycle = cycle_length(adj_mat(ANGLES_6s), tsp_path)\<close> and
  \<^verbatim>\<open>conv_cycle = cycle_length(adj_mat(ANGLES_6s), range(6))\<close>.
\<close>

definition tsp_cycle :: "int list \<Rightarrow> error + rat" where
  "tsp_cycle tsp_path =
     (case adj_mat ANGLES_6s of
        Inl e \<Rightarrow> Inl e
      | Inr adjacency_matrix \<Rightarrow> cycle_length adjacency_matrix tsp_path)"

definition conv_cycle :: "error + rat" where
  "conv_cycle = tsp_cycle (map int [0 ..< 6])"

text \<open>
  \<^verbatim>\<open>speedup = conv_cycle / tsp_cycle\<close>. Both operands are \<^verbatim>\<open>numpy.float64\<close> scalars: the sum
  of \<^verbatim>\<open>cycle_length\<close> starts at the integer 0 and adds entries of a NumPy array. NumPy's
  division of such scalars never raises: a zero divisor gives \<^verbatim>\<open>inf\<close>, \<^verbatim>\<open>-inf\<close> or
  \<^verbatim>\<open>nan\<close> together with a \<^verbatim>\<open>RuntimeWarning\<close>. The result type has the three special
  values beside the finite ones; the quotient of finite values is the exact one (its
  rounding to a double is not modelled). A cycle length is a sum of absolute values and
  is never the negative zero.
\<close>

datatype float64 = Finite rat | PosInf | NegInf | NaN

definition speedup :: "rat \<Rightarrow> rat \<Rightarrow> error + float64" where
  "speedup conv tsp =
     (if tsp \<noteq> 0 then Inr (Finite (conv / tsp))
      else if conv = 0 then Inr NaN
      else if 0 < conv then Inr PosInf
      else Inr NegInf)"

text \<open>\<^verbatim>\<open>reduction = conv_cycle - tsp_cycle\<close>\<close>

definition reduction :: "rat \<Rightarrow> rat \<Rightarrow> rat" where
  "reduction conv tsp = conv - tsp"

section \<open>The configuration space: \<^verbatim>\<open>nqubit_angles\<close>\<close>

text \<open>
  \<^verbatim>\<open>itertools.product(pool, repeat=n)\<close> builds its tuples pool by pool, as the
  library documents it:
  \<^verbatim>\<open>
  result = [[]]
  for pool in pools:
      result = [x+[y] for x in result for y in pool]
  \<close>
  Before that it converts \<open>repeat\<close> to a C \<^verbatim>\<open>Py_ssize_t\<close> (64 bits here) and raises
  \<^verbatim>\<open>OverflowError\<close> for a value below \<open>- 2^63\<close>; then it raises \<^verbatim>\<open>ValueError\<close> for a
  negative \<open>repeat\<close>. For a count of one or more the tuples are taken to fit in memory,
  whatever the count.
\<close>

fun product_pools :: "'a list \<Rightarrow> nat \<Rightarrow> 'a list list" where
  "product_pools pool 0 = [[]]"
| "product_pools pool (Suc n) =
     concat (map (\<lambda>x. map (\<lambda>y. x @ [y]) pool) (product_pools pool n))"

definition product_repeat :: "'a list \<Rightarrow> int \<Rightarrow> error + 'a list list" where
  "product_repeat pool repeat =
     (if repeat < - (2 ^ 63) then Inl OverflowError
      else if repeat < 0 then Inl ValueError
      else Inr (product_pools pool (nat repeat)))"

text \<open>
  \<^verbatim>\<open>np.hstack\<close> of a tuple of one-dimensional arrays concatenates them and raises
  \<^verbatim>\<open>ValueError\<close> on the empty tuple; \<^verbatim>\<open>np.vstack\<close> of one-dimensional arrays makes
  them the rows of a two-dimensional array and raises \<^verbatim>\<open>ValueError\<close> when there is none
  or when their lengths differ.
\<close>

definition hstack :: "rat list list \<Rightarrow> error + rat list" where
  "hstack tup = (if tup = [] then Inl ValueError else Inr (concat tup))"

definition vstack :: "rat list list \<Rightarrow> error + rat list list" where
  "vstack array_list =
     (case array_list of
        [] \<Rightarrow> Inl ValueError
      | a # as \<Rightarrow>
          if list_all (\<lambda>b. length b = length a) as then Inr (a # as) else Inl ValueError)"

text \<open>
  \<^verbatim>\<open>
  cartesian = product(one_qubit_angles, repeat=n)
  array_list = map(np.hstack, cartesian)
  angles = np.vstack(array_list)
  \<close>
\<close>

definition nqubit_angles :: "rat list list \<Rightarrow> int \<Rightarrow> error + rat list list" where
  "nqubit_angles one_qubit_angles n =
     (case product_repeat one_qubit_angles n of
        Inl e \<Rightarrow> Inl e
      | Inr cartesian \<Rightarrow>
          (case traverse hstack cartesian of
             Inl e \<Rightarrow> Inl e
           | Inr array_list \<Rightarrow> vstack array_list))"

text \<open>
  The loop over the qubit counts: \<^verbatim>\<open>adj_mat(nqubit_angles(ANGLES_6s, nqubits))\<close>.
\<close>

definition nqubit_adj_mat :: "int \<Rightarrow> error + rat list list" where
  "nqubit_adj_mat nqubits =
     (case nqubit_angles ANGLES_6s nqubits of
        Inl e \<Rightarrow> Inl e
      | Inr nqu_angles \<Rightarrow> adj_mat nqu_angles)"

section \<open>The problem file: \<^verbatim>\<open>save_tsp\<close>\<close>

text \<open>Decimal numerals, as \<^verbatim>\<open>str.format\<close> and \<^verbatim>\<open>%d\<close> print integers.\<close>

fun show_nat :: "nat \<Rightarrow> string" where
  "show_nat n =
     (if n < 10 then [char_of (48 + n)]
      else show_nat (n div 10) @ [char_of (48 + n mod 10)])"

declare show_nat.simps [simp del]

definition show_int :: "int \<Rightarrow> string" where
  "show_int i = (if i < 0 then CHR ''-'' # show_nat (nat (- i)) else show_nat (nat i))"

text \<open>
  \<^verbatim>\<open>'%d' % x\<close> on a floating-point number prints \<^verbatim>\<open>int(x)\<close>: the fraction is dropped,
  rounding toward zero.
\<close>

definition trunc :: "rat \<Rightarrow> int" where
  "trunc x = (if 0 \<le> x then \<lfloor>x\<rfloor> else \<lceil>x\<rceil>)"

definition fmt_d :: "rat \<Rightarrow> string" where
  "fmt_d x = show_int (trunc x)"

fun join :: "string \<Rightarrow> string list \<Rightarrow> string" where
  "join sep [] = []"
| "join sep [x] = x"
| "join sep (x # y # ys) = x @ sep @ join sep (y # ys)"

text \<open>
  The string \<^verbatim>\<open>HEADER.format(n=..., d=..., c=...)\<close>; the template ends with a newline.
\<close>

definition HEADER :: "string \<Rightarrow> nat \<Rightarrow> string \<Rightarrow> string" where
  "HEADER n d c =
     ''NAME : '' @ n @ [CHR 0x0A] @
     ''TYPE : TSP'' @ [CHR 0x0A] @
     ''COMMENT : '' @ c @ [CHR 0x0A] @
     ''DIMENSION : '' @ show_nat d @ [CHR 0x0A] @
     ''EDGE_WEIGHT_TYPE : EXPLICIT'' @ [CHR 0x0A] @
     ''EDGE_WEIGHT_FORMAT : FULL_MATRIX'' @ [CHR 0x0A] @
     ''EDGE_WEIGHT_SECTION'' @ [CHR 0x0A]"

text \<open>
  \<^verbatim>\<open>np.savetxt(filename, X, header=h, footer=f, comments="", fmt="%d")\<close> writes the header
  and a newline, each row as its entries under \<^verbatim>\<open>%d\<close> joined by single spaces and a
  newline, then the footer and a newline.
\<close>

definition savetxt :: "rat list list \<Rightarrow> string \<Rightarrow> string \<Rightarrow> string" where
  "savetxt X header footer =
     header @ [CHR 0x0A] @
     concat (map (\<lambda>row. join '' '' (map fmt_d row) @ [CHR 0x0A]) X) @
     footer @ [CHR 0x0A]"

text \<open>
  The arrays live in a store: a variable holds a reference, and the call
  \<^verbatim>\<open>save_tsp(filename, adjacency_matrix, comment)\<close> receives the caller's reference.
  \<^verbatim>\<open>adjacency_matrix *= 2\<close> is NumPy's in-place multiplication: it overwrites the array
  the reference denotes. The file system maps a name to the text of the file.
  \<^verbatim>\<open>
  dimension = len(adjacency_matrix)
  adjacency_matrix *= 2
  np.savetxt(filename, adjacency_matrix,
             header=HEADER.format(n=filename, d=dimension, c=comment),
             footer="EOF", comments="", fmt="%d")
  \<close>
\<close>

record state =
  arrays :: "nat \<Rightarrow> rat list list"
  files :: "string \<Rightarrow> string option"

definition imul :: "nat \<Rightarrow> rat \<Rightarrow> state \<Rightarrow> state" where
  "imul r k s = s\<lparr>arrays := (arrays s)(r := map (map (\<lambda>x. x * k)) (arrays s r))\<rparr>"

definition save_tsp :: "string \<Rightarrow> nat \<Rightarrow> string \<Rightarrow> state \<Rightarrow> state" where
  "save_tsp filename adjacency_matrix comment s =
     (let dimension = length (arrays s adjacency_matrix);
          s1 = imul adjacency_matrix 2 s
      in s1\<lparr>files := (files s1)(filename \<mapsto>
            savetxt (arrays s1 adjacency_matrix) (HEADER filename dimension comment) ''EOF'')\<rparr>)"

section \<open>The solution file: \<^verbatim>\<open>get_projs\<close>\<close>

text \<open>
  \<^verbatim>\<open>f.readlines()\<close>: the lines of the text, each with its newline when it has one. The
  text is the one Python's text mode delivers, every line ending already a single
  newline character, and it is ASCII.
\<close>

fun lines_from :: "string \<Rightarrow> string \<Rightarrow> string list" where
  "lines_from cur [] = (if cur = [] then [] else [cur])"
| "lines_from cur (c # cs) =
     (if c = CHR 0x0A then (cur @ [c]) # lines_from [] cs else lines_from (cur @ [c]) cs)"

definition readlines :: "string \<Rightarrow> string list" where
  "readlines text = lines_from [] text"

text \<open>\<^verbatim>\<open>x.rstrip(" \n")\<close> removes the trailing spaces and newlines.\<close>

definition rstrip :: "string \<Rightarrow> string" where
  "rstrip x = rev (dropWhile (\<lambda>c. c = CHR '' '' \<or> c = CHR 0x0A) (rev x))"

text \<open>
  \<^verbatim>\<open>s.split(" ")\<close> cuts at every single space: two spaces in a row, a leading space or
  an empty string give an empty token.
\<close>

fun split_from :: "string \<Rightarrow> string \<Rightarrow> string list" where
  "split_from cur [] = [cur]"
| "split_from cur (c # cs) =
     (if c = CHR '' '' then cur # split_from [] cs else split_from (cur @ [c]) cs)"

definition split_sp :: "string \<Rightarrow> string list" where
  "split_sp s = split_from [] s"

text \<open>
  \<^verbatim>\<open>int(token)\<close> in base ten, on ASCII text: white space around the literal is dropped
  (the characters 9 to 13, that is tab, newline, vertical tab, form feed and carriage
  return, and the space 32; no other control character), one sign may lead, the digits
  may be grouped by single underscores, and anything else (the empty string too) raises
  \<^verbatim>\<open>ValueError\<close>.
\<close>

definition is_space :: "char \<Rightarrow> bool" where
  "is_space c = (of_char c \<in> set [9, 10, 11, 12, 13, 32 :: nat])"

definition is_digit :: "char \<Rightarrow> bool" where
  "is_digit c = (48 \<le> (of_char c :: nat) \<and> (of_char c :: nat) \<le> 57)"

definition digit_val :: "char \<Rightarrow> nat" where
  "digit_val c = of_char c - 48"

definition strip :: "string \<Rightarrow> string" where
  "strip x = rev (dropWhile is_space (rev (dropWhile is_space x)))"

fun int_digits :: "nat \<Rightarrow> string \<Rightarrow> error + nat" where
  "int_digits acc [] = Inr acc"
| "int_digits acc [c] =
     (if is_digit c then Inr (acc * 10 + digit_val c) else Inl ValueError)"
| "int_digits acc (c # d # ds) =
     (if is_digit c then int_digits (acc * 10 + digit_val c) (d # ds)
      else if c = CHR ''_'' \<and> is_digit d then int_digits (acc * 10 + digit_val d) ds
      else Inl ValueError)"

definition int_literal :: "string \<Rightarrow> error + nat" where
  "int_literal x =
     (case x of
        [] \<Rightarrow> Inl ValueError
      | c # cs \<Rightarrow> if is_digit c then int_digits (digit_val c) cs else Inl ValueError)"

definition py_int :: "string \<Rightarrow> error + int" where
  "py_int x =
     (case strip x of
        [] \<Rightarrow> Inl ValueError
      | c # cs \<Rightarrow>
          if c = CHR ''-'' then
            (case int_literal cs of Inl e \<Rightarrow> Inl e | Inr v \<Rightarrow> Inr (- int v))
          else if c = CHR ''+'' then
            (case int_literal cs of Inl e \<Rightarrow> Inl e | Inr v \<Rightarrow> Inr (int v))
          else
            (case int_literal (c # cs) of Inl e \<Rightarrow> Inl e | Inr v \<Rightarrow> Inr (int v)))"

text \<open>
  \<^verbatim>\<open>
  with open(filename, "r") as f:
      lines = map(lambda x: x.rstrip(" \n"), f.readlines()[1:])
  joined_lines = " ".join(list(lines))
  path = list(map(int, joined_lines.split(" ")))
  \<close>
  The first argument is the file system; a missing file raises on \<^verbatim>\<open>open\<close>.
\<close>

definition joined_lines :: "string \<Rightarrow> string" where
  "joined_lines text = join '' '' (map rstrip (drop 1 (readlines text)))"

definition get_projs :: "(string \<Rightarrow> string option) \<Rightarrow> string \<Rightarrow> error + int list" where
  "get_projs fs filename =
     (case fs filename of
        None \<Rightarrow> Inl FileNotFoundError
      | Some text \<Rightarrow> traverse py_int (split_sp (joined_lines text)))"

section \<open>The specification's own notions\<close>

text \<open>
  The distance of the specification, in its words: the maximum over all component indices
  \<open>k\<close> of \<open>|a[k] - b[k]|\<close>, for settings of \<open>C\<close> components.
\<close>

definition max_abs_diff :: "nat \<Rightarrow> rat list \<Rightarrow> rat list \<Rightarrow> rat" where
  "max_abs_diff C a b = Max ((\<lambda>k. \<bar>a ! k - b ! k\<bar>) ` {..<C})"

text \<open>
  The index decomposition of the specification, in its words: the \<open>n\<close> digits of \<open>idx\<close>
  in base \<open>b\<close>, most significant first; the digit at position \<open>p\<close> (from the left,
  starting at \<open>0\<close>) selects the base setting of qubit \<open>p + 1\<close>.
\<close>

definition base_digits :: "nat \<Rightarrow> nat \<Rightarrow> nat \<Rightarrow> nat list" where
  "base_digits b n idx = map (\<lambda>p. (idx div b ^ (n - 1 - p)) mod b) [0 ..< n]"

text \<open>
  The grid of the base table: its components are the multiples of \<open>22.5\<close> from \<open>-45\<close>
  to \<open>45\<close>.
\<close>

definition on_grid :: "rat \<Rightarrow> bool" where
  "on_grid q = (\<exists>m::int. - 2 \<le> m \<and> m \<le> 2 \<and> q = of_int m * (45 / 2))"

section \<open>Facts about the helpers\<close>

lemma traverse_Inr_map:
  "(\<And>x. x \<in> set xs \<Longrightarrow> f x = Inr (g x)) \<Longrightarrow> traverse f xs = Inr (map g xs)"
  by (induction xs) simp_all

lemma traverse_map: "traverse f (map g xs) = traverse (\<lambda>x. f (g x)) xs"
  by (induction xs) (simp_all cong: sum.case_cong)

lemma traverse_Inl_elem: "traverse f xs = Inl e \<Longrightarrow> \<exists>x\<in>set xs. f x = Inl e"
  by (induction xs) (auto split: sum.splits)

lemma traverse_fails: "x \<in> set xs \<Longrightarrow> f x = Inl e \<Longrightarrow> \<exists>e'. traverse f xs = Inl e'"
  by (induction xs) (auto split: sum.splits)

lemma py_index_valid: "0 \<le> i \<Longrightarrow> i < int (length xs) \<Longrightarrow> py_index xs i = Inr (xs ! nat i)"
  by (simp add: py_index_def)

lemma py_index_outside:
  "int (length xs) \<le> i \<or> i < - int (length xs) \<Longrightarrow> py_index xs i = Inl IndexError"
  by (auto simp: py_index_def)

lemma py_index_error: "py_index xs i = Inl e \<Longrightarrow> e = IndexError"
  by (auto simp: py_index_def split: if_splits)

lemma py_index_last: "xs \<noteq> [] \<Longrightarrow> py_index xs (- 1) = Inr (xs ! (length xs - 1))"
  by (cases xs) (auto simp: py_index_def nat_diff_distrib)

lemma py_index_first: "xs \<noteq> [] \<Longrightarrow> py_index xs 0 = Inr (xs ! 0)"
  by (cases xs) (auto simp: py_index_def)

lemma py_index_empty: "py_index [] i = Inl IndexError"
  by (simp add: py_index_def)

section \<open>The adjacency matrix is the max-metric\<close>

lemma np_max_Max: "v \<noteq> [] \<Longrightarrow> np_max v = Inr (Max (set v))"
proof (cases v)
  case Nil
  assume "v \<noteq> []"
  with Nil show ?thesis by simp
next
  case (Cons x xs)
  then show ?thesis using Max.set_eq_fold[of x xs] by simp
qed

lemma abs_diff_zip:
  fixes a b :: "rat list"
  assumes "length a = C" "length b = C"
  shows "map abs (map (\<lambda>(x, y). x - y) (zip b a)) = map (\<lambda>k. \<bar>a ! k - b ! k\<bar>) [0..<C]"
proof (rule nth_equalityI)
  show "length (map abs (map (\<lambda>(x, y). x - y) (zip b a))) = length (map (\<lambda>k. \<bar>a ! k - b ! k\<bar>) [0..<C])"
    using assms by simp
next
  fix i assume "i < length (map abs (map (\<lambda>(x, y). x - y) (zip b a)))"
  with assms have "i < C" by simp
  with assms show "map abs (map (\<lambda>(x, y). x - y) (zip b a)) ! i = map (\<lambda>k. \<bar>a ! k - b ! k\<bar>) [0..<C] ! i"
    using abs_minus_commute[of "b ! i" "a ! i"] by simp
qed

lemma max_abs_diff_sym: "max_abs_diff C a b = max_abs_diff C b a"
  by (simp add: max_abs_diff_def abs_minus_commute)

lemma max_abs_diff_refl: "0 < C \<Longrightarrow> max_abs_diff C a a = 0"
proof -
  assume "0 < C"
  then have "(\<lambda>k. \<bar>a ! k - a ! k\<bar>) ` {..<C} = {0}" by auto
  then show ?thesis by (simp add: max_abs_diff_def)
qed

lemma adj_mat_Inr:
  assumes len: "list_all (\<lambda>s. length s = C) settings" and C: "0 < C"
  shows "adj_mat settings = Inr (map (\<lambda>a. map (\<lambda>b. max_abs_diff C a b) settings) settings)"
proof -
  have cell: "np_max (map abs (map (\<lambda>(x, y). x - y) (zip b a))) = Inr (max_abs_diff C a b)"
    if "a \<in> set settings" "b \<in> set settings" for a b
  proof -
    from that len have la: "length a = C" and lb: "length b = C"
      by (simp_all add: list_all_iff)
    have eq: "map abs (map (\<lambda>(x, y). x - y) (zip b a)) = map (\<lambda>k. \<bar>a ! k - b ! k\<bar>) [0..<C]"
      by (rule abs_diff_zip[OF la lb])
    from C have "map (\<lambda>k. \<bar>a ! k - b ! k\<bar>) [0..<C] \<noteq> []" by simp
    then have "np_max (map (\<lambda>k. \<bar>a ! k - b ! k\<bar>) [0..<C])
        = Inr (Max (set (map (\<lambda>k. \<bar>a ! k - b ! k\<bar>) [0..<C])))"
      by (rule np_max_Max)
    then show ?thesis
      unfolding eq by (simp add: max_abs_diff_def atLeast0LessThan)
  qed
  have row: "traverse (\<lambda>v. np_max (map abs v)) (map (\<lambda>b. map (\<lambda>(x, y). x - y) (zip b a)) settings)
      = Inr (map (\<lambda>b. max_abs_diff C a b) settings)" if a: "a \<in> set settings" for a
  proof -
    have "traverse (\<lambda>v. np_max (map abs v)) (map (\<lambda>b. map (\<lambda>(x, y). x - y) (zip b a)) settings)
      = traverse (\<lambda>b. np_max (map abs (map (\<lambda>(x, y). x - y) (zip b a)))) settings"
      by (rule traverse_map)
    also have "\<dots> = Inr (map (\<lambda>b. max_abs_diff C a b) settings)"
      by (rule traverse_Inr_map) (rule cell[OF a])
    finally show ?thesis .
  qed
  have "adj_mat settings = traverse (\<lambda>a. traverse (\<lambda>v. np_max (map abs v))
          (map (\<lambda>b. map (\<lambda>(x, y). x - y) (zip b a)) settings)) settings"
    unfolding adj_mat_def angular_diff_def by (rule traverse_map)
  also have "\<dots> = Inr (map (\<lambda>a. map (\<lambda>b. max_abs_diff C a b) settings) settings)"
    by (rule traverse_Inr_map) (rule row)
  finally show ?thesis .
qed

text \<open>
  Claim C4. For settings that all have \<open>C\<close> components (\<open>C\<close> at least one, as every
  setting of one or more qubits has), \<^verbatim>\<open>adj_mat\<close> returns an \<open>N \<times> N\<close> matrix whose entry
  \<open>(i, j)\<close> is the maximum over the component indices \<open>k\<close> of
  \<open>|settings[i][k] - settings[j][k]|\<close>; the matrix is symmetric and its diagonal is zero.
\<close>

theorem adj_mat_max_metric:
  assumes "list_all (\<lambda>s. length s = C) settings" and "0 < C"
  shows "\<exists>M. adj_mat settings = Inr M \<and> length M = length settings \<and>
           list_all (\<lambda>row. length row = length settings) M \<and>
           (\<forall>i<length settings. \<forall>j<length settings.
              M ! i ! j = Max ((\<lambda>k. \<bar>settings ! i ! k - settings ! j ! k\<bar>) ` {..<C}) \<and>
              M ! i ! j = M ! j ! i \<and> M ! i ! i = 0)"
proof -
  let ?M = "map (\<lambda>a. map (\<lambda>b. max_abs_diff C a b) settings) settings"
  have "adj_mat settings = Inr ?M" by (rule adj_mat_Inr[OF assms])
  moreover have "length ?M = length settings" by simp
  moreover have "list_all (\<lambda>row. length row = length settings) ?M"
    by (simp add: list_all_iff)
  moreover have "\<forall>i<length settings. \<forall>j<length settings.
              ?M ! i ! j = Max ((\<lambda>k. \<bar>settings ! i ! k - settings ! j ! k\<bar>) ` {..<C}) \<and>
              ?M ! i ! j = ?M ! j ! i \<and> ?M ! i ! i = 0"
    using assms(2)
    by (simp add: max_abs_diff_refl max_abs_diff_sym[of C "settings ! i" "settings ! j" for i j])
      (simp add: max_abs_diff_def)
  ultimately show ?thesis by blast
qed

theorem adj_mat_max_metric_witness:
  "list_all (\<lambda>s. length s = 2) ANGLES_6s \<and> 0 < (2::nat) \<and>
   (\<exists>M. adj_mat ANGLES_6s = Inr M \<and> length M = 6 \<and>
        M ! 1 ! 3 = 135 / 2 \<and> M ! 1 ! 3 = M ! 3 ! 1 \<and> M ! 1 ! 1 = 0)"
proof -
  have h1: "list_all (\<lambda>s. length s = 2) ANGLES_6s" by (simp add: ANGLES_6s_def)
  have h2: "0 < (2::nat)" by simp
  have len: "length ANGLES_6s = 6" by (simp add: ANGLES_6s_def)
  from adj_mat_max_metric[OF h1 h2] obtain M where
    M: "adj_mat ANGLES_6s = Inr M" "length M = length ANGLES_6s" and
    ent: "\<forall>i<length ANGLES_6s. \<forall>j<length ANGLES_6s.
              M ! i ! j = Max ((\<lambda>k. \<bar>ANGLES_6s ! i ! k - ANGLES_6s ! j ! k\<bar>) ` {..<2}) \<and>
              M ! i ! j = M ! j ! i \<and> M ! i ! i = 0"
    by blast
  have two: "{..<2::nat} = {0, 1}" by auto
  have "1 < length ANGLES_6s" and "3 < length ANGLES_6s" using len by simp_all
  from ent[rule_format, OF this]
  have v: "M ! 1 ! 3 = Max ((\<lambda>k. \<bar>ANGLES_6s ! 1 ! k - ANGLES_6s ! 3 ! k\<bar>) ` {..<2})"
    and s: "M ! 1 ! 3 = M ! 3 ! 1" and d: "M ! 1 ! 1 = 0" by blast+
  from v have "M ! 1 ! 3 = 135 / 2"
    by (simp add: two ANGLES_6s_def)
  with M len s d h1 h2 show ?thesis by simp
qed

section \<open>The cycle length\<close>


lemma matrix_at_error: "matrix_at M edge = Inl e \<Longrightarrow> e = IndexError"
  by (auto simp: matrix_at_def split: sum.splits dest: py_index_error)

lemma matrix_at_bad_row:
  "int (length M) \<le> fst edge \<or> fst edge < - int (length M) \<Longrightarrow> matrix_at M edge = Inl IndexError"
  by (simp add: matrix_at_def py_index_outside)

lemma matrix_at_valid:
  assumes "list_all (\<lambda>row. length row = length M) M"
    and "0 \<le> a" "a < int (length M)" "0 \<le> b" "b < int (length M)"
  shows "matrix_at M (a, b) = Inr (M ! nat a ! nat b)"
proof -
  from assms have "nat a < length M" by simp
  with assms(1) have "length (M ! nat a) = length M"
    by (simp add: list_all_length)
  with assms show ?thesis
    by (simp add: matrix_at_def py_index_valid)
qed

lemma cycle_length_empty: "cycle_length M [] = Inl IndexError"
  by (simp add: cycle_length_def py_index_empty)

lemma cycle_length_nonempty:
  assumes "t \<noteq> []"
  shows "cycle_length M t =
     (case traverse (matrix_at M)
             (map (\<lambda>n. (t ! n, t ! (n + 1))) [0 ..< length t - 1] @ [(t ! (length t - 1), t ! 0)]) of
        Inl e \<Rightarrow> Inl e
      | Inr ws \<Rightarrow> Inr (sum_list ws))"
  using assms by (simp add: cycle_length_def py_index_last py_index_first)

lemma rows_of_edges:
  assumes "t \<noteq> []"
  shows "fst ` set (map (\<lambda>n. (t ! n, t ! (n + 1))) [0 ..< length t - 1] @ [(t ! (length t - 1), t ! 0)]) = set t"
proof -
  have "fst ` set (map (\<lambda>n. (t ! n, t ! (n + 1))) [0 ..< length t - 1] @ [(t ! (length t - 1), t ! 0)])
      = (!) t ` {0 ..< length t - 1} \<union> (!) t ` {length t - 1}"
    by (simp add: image_image)
  also have "\<dots> = (!) t ` ({0 ..< length t - 1} \<union> {length t - 1})"
    by (simp only: image_Un)
  also from assms have "{0 ..< length t - 1} \<union> {length t - 1} = {0 ..< length t}"
    by (cases t) auto
  also have "(!) t ` {0 ..< length t} = set t"
    using nth_image[of "length t" t] by simp
  finally show ?thesis .
qed

lemma cycle_length_bad_index:
  assumes "list_ex (\<lambda>i. int (length M) \<le> i \<or> i < - int (length M)) t"
  shows "cycle_length M t = Inl IndexError"
proof -
  from assms obtain i where i: "i \<in> set t" "int (length M) \<le> i \<or> i < - int (length M)"
    by (auto simp: list_ex_iff)
  then have ne: "t \<noteq> []" by auto
  let ?edges = "map (\<lambda>n. (t ! n, t ! (n + 1))) [0 ..< length t - 1] @ [(t ! (length t - 1), t ! 0)]"
  from i(1) have "i \<in> fst ` set ?edges"
    by (simp only: rows_of_edges[OF ne])
  then obtain edge where edge: "edge \<in> set ?edges" "fst edge = i"
    by (elim imageE) simp
  with i(2) have bad: "matrix_at M edge = Inl IndexError"
    by (simp add: matrix_at_bad_row)
  from traverse_fails[of edge _ "matrix_at M", OF edge(1) bad]
  obtain e' where e': "traverse (matrix_at M) ?edges = Inl e'" ..
  from traverse_Inl_elem[OF e'] obtain x where "matrix_at M x = Inl e'" ..
  then have "e' = IndexError" by (rule matrix_at_error)
  with e' show ?thesis
    by (simp add: cycle_length_nonempty[OF ne])
qed

lemma cycle_length_valid:
  assumes ne: "t \<noteq> []"
    and sq: "list_all (\<lambda>row. length row = length M) M"
    and ok: "list_all (\<lambda>i. 0 \<le> i \<and> i < int (length M)) t"
  shows "cycle_length M t =
     Inr ((\<Sum>k<length t - 1. M ! nat (t ! k) ! nat (t ! (k + 1)))
          + M ! nat (t ! (length t - 1)) ! nat (t ! 0))"
proof -
  let ?edges = "map (\<lambda>n. (t ! n, t ! (n + 1))) [0 ..< length t - 1] @ [(t ! (length t - 1), t ! 0)]"
  let ?g = "\<lambda>edge. M ! nat (fst edge) ! nat (snd edge)"
  from ok have nth_ok: "0 \<le> t ! n \<and> t ! n < int (length M)" if "n < length t" for n
    using that by (simp add: list_all_length)
  have "matrix_at M edge = Inr (?g edge)" if "edge \<in> set ?edges" for edge
  proof -
    from that have "(\<exists>n<length t - 1. edge = (t ! n, t ! (n + 1))) \<or> edge = (t ! (length t - 1), t ! 0)"
      by auto
    then have "\<exists>n m. n < length t \<and> m < length t \<and> edge = (t ! n, t ! m)"
    proof
      assume "\<exists>n<length t - 1. edge = (t ! n, t ! (n + 1))"
      then obtain n where "n < length t - 1" "edge = (t ! n, t ! (n + 1))" by blast
      moreover from this have "n < length t" "n + 1 < length t" by linarith+
      ultimately show ?thesis by blast
    next
      assume "edge = (t ! (length t - 1), t ! 0)"
      with ne have "length t - 1 < length t \<and> 0 < length t \<and> edge = (t ! (length t - 1), t ! 0)"
        by simp
      then show ?thesis by blast
    qed
    then obtain n m where nm: "n < length t" "m < length t" and edge: "edge = (t ! n, t ! m)" by blast
    from nth_ok[OF nm(1)] nth_ok[OF nm(2)]
    have "matrix_at M (t ! n, t ! m) = Inr (M ! nat (t ! n) ! nat (t ! m))"
      by (intro matrix_at_valid[OF sq]) simp_all
    with edge show ?thesis by simp
  qed
  then have "traverse (matrix_at M) ?edges = Inr (map ?g ?edges)"
    by (rule traverse_Inr_map)
  then have "cycle_length M t = Inr (sum_list (map ?g ?edges))"
    by (simp add: cycle_length_nonempty[OF ne])
  also have "sum_list (map ?g ?edges) =
      sum_list (map (\<lambda>k. M ! nat (t ! k) ! nat (t ! (k + 1))) [0 ..< length t - 1])
        + M ! nat (t ! (length t - 1)) ! nat (t ! 0)"
    by (simp add: comp_def)
  also have "sum_list (map (\<lambda>k. M ! nat (t ! k) ! nat (t ! (k + 1))) [0 ..< length t - 1])
      = (\<Sum>k<length t - 1. M ! nat (t ! k) ! nat (t ! (k + 1)))"
    by (simp add: interv_sum_list_conv_sum_set_nat atLeast0LessThan)
  finally show ?thesis .
qed


lemma adj_mat_ANGLES_6s:
  "adj_mat ANGLES_6s =
     Inr [[0, 45, 45 / 2, 45 / 2, 45, 45],
          [45, 0, 45 / 2, 135 / 2, 45, 45],
          [45 / 2, 45 / 2, 0, 45, 45, 45],
          [45 / 2, 135 / 2, 45, 0, 45, 45],
          [45, 45, 45, 45, 0, 90],
          [45, 45, 45, 45, 90, 0]]"
  by (simp add: adj_mat_def angular_diff_def ANGLES_6s_def)

lemma tsp_cycle_optimal: "tsp_cycle [0, 5, 3, 4, 1, 2] = Inr 225"
  by (simp add: tsp_cycle_def adj_mat_ANGLES_6s cycle_length_def matrix_at_def py_index_def)

lemma range_6: "map int [0 ..< 6] = [0, 1, 2, 3, 4, 5]"
  by code_simp

lemma conv_cycle_value: "conv_cycle = Inr (585 / 2)"
  unfolding conv_cycle_def range_6
  by (simp add: tsp_cycle_def adj_mat_ANGLES_6s cycle_length_def matrix_at_def py_index_def)

text \<open>
  Claim C5. For a non-empty tour \<open>t\<close> of valid indices (from \<open>0\<close> to \<open>N - 1\<close>) into an
  \<open>N \<times> N\<close> matrix \<open>M\<close>, \<^verbatim>\<open>cycle_length\<close> returns the sum of \<open>M[t[k]][t[k+1]]\<close> for
  \<open>k\<close> from \<open>0\<close> to \<open>len(t) - 2\<close> plus the closing edge \<open>M[t[-1]][t[0]]\<close>. On the
  one-qubit matrix of \<^verbatim>\<open>ANGLES_6s\<close> the tour \<open>[0,5,3,4,1,2]\<close> has length \<open>225\<close>, the
  identity tour has length \<open>292.5\<close>, and their reduction is \<open>67.5\<close>.
\<close>

theorem cycle_length_closed_sum:
  "(\<forall>M t. t \<noteq> [] \<and> list_all (\<lambda>row. length row = length M) M \<and>
          list_all (\<lambda>i. 0 \<le> i \<and> i < int (length M)) t \<longrightarrow>
      cycle_length M t =
        Inr ((\<Sum>k<length t - 1. M ! nat (t ! k) ! nat (t ! (k + 1)))
             + M ! nat (t ! (length t - 1)) ! nat (t ! 0))) \<and>
   tsp_cycle [0, 5, 3, 4, 1, 2] = Inr 225 \<and>
   conv_cycle = Inr (585 / 2) \<and>
   reduction (585 / 2) 225 = 135 / 2"
  using cycle_length_valid tsp_cycle_optimal conv_cycle_value
  by (simp add: reduction_def)

theorem cycle_length_closed_sum_witness:
  "[0, 5, 3, 4, 1, 2] \<noteq> ([] :: int list) \<and>
   list_all (\<lambda>row. length row = length [[0, 45, 45 / 2, 45 / 2, 45, 45 :: rat],
          [45, 0, 45 / 2, 135 / 2, 45, 45],
          [45 / 2, 45 / 2, 0, 45, 45, 45],
          [45 / 2, 135 / 2, 45, 0, 45, 45],
          [45, 45, 45, 45, 0, 90],
          [45, 45, 45, 45, 90, 0]]) [[0, 45, 45 / 2, 45 / 2, 45, 45 :: rat],
          [45, 0, 45 / 2, 135 / 2, 45, 45],
          [45 / 2, 45 / 2, 0, 45, 45, 45],
          [45 / 2, 135 / 2, 45, 0, 45, 45],
          [45, 45, 45, 45, 0, 90],
          [45, 45, 45, 45, 90, 0]] \<and>
   list_all (\<lambda>i. 0 \<le> i \<and> i < 6) [0, 5, 3, 4, 1, 2 :: int] \<and>
   cycle_length [[0, 45, 45 / 2, 45 / 2, 45, 45],
          [45, 0, 45 / 2, 135 / 2, 45, 45],
          [45 / 2, 45 / 2, 0, 45, 45, 45],
          [45 / 2, 135 / 2, 45, 0, 45, 45],
          [45, 45, 45, 45, 0, 90],
          [45, 45, 45, 45, 90, 0]] [0, 5, 3, 4, 1, 2] = Inr (45 + 45 + 45 + 45 + 45 / 2 + 45 / 2)"
proof -
  let ?M = "[[0, 45, 45 / 2, 45 / 2, 45, 45 :: rat],
          [45, 0, 45 / 2, 135 / 2, 45, 45],
          [45 / 2, 45 / 2, 0, 45, 45, 45],
          [45 / 2, 135 / 2, 45, 0, 45, 45],
          [45, 45, 45, 45, 0, 90],
          [45, 45, 45, 45, 90, 0]]"
  let ?t = "[0, 5, 3, 4, 1, 2 :: int]"
  have h: "?t \<noteq> [] \<and> list_all (\<lambda>row. length row = length ?M) ?M \<and>
          list_all (\<lambda>i. 0 \<le> i \<and> i < int (length ?M)) ?t"
    by simp
  have five: "{..<5::nat} = {0, 1, 2, 3, 4}" by auto
  from cycle_length_closed_sum have "cycle_length ?M ?t =
        Inr ((\<Sum>k<length ?t - 1. ?M ! nat (?t ! k) ! nat (?t ! (k + 1)))
             + ?M ! nat (?t ! (length ?t - 1)) ! nat (?t ! 0))"
    using h by blast
  then have "cycle_length ?M ?t = Inr (45 + 45 + 45 + 45 + 45 / 2 + 45 / 2)"
    by (simp add: five)
  with h show ?thesis by simp
qed

subsection \<open>When the cycle length raises\<close>

lemma traverse_total:
  "(\<And>x. x \<in> set xs \<Longrightarrow> \<exists>v. f x = Inr v) \<Longrightarrow> \<exists>ys. traverse f xs = Inr ys"
proof (induction xs)
  case Nil
  show ?case by simp
next
  case (Cons x xs)
  from Cons.prems[of x] obtain v where v: "f x = Inr v" by auto
  from Cons.IH Cons.prems obtain ys where "traverse f xs = Inr ys" by auto
  with v show ?case by simp
qed

lemma py_index_inside:
  "- int (length xs) \<le> i \<Longrightarrow> i < int (length xs) \<Longrightarrow> \<exists>v. v \<in> set xs \<and> py_index xs i = Inr v"
  by (auto simp: py_index_def)

lemma matrix_at_inside:
  assumes sq: "list_all (\<lambda>row. length row = length M) M"
    and a: "- int (length M) \<le> a" "a < int (length M)"
    and b: "- int (length M) \<le> b" "b < int (length M)"
  shows "\<exists>v. matrix_at M (a, b) = Inr v"
proof -
  from py_index_inside[OF a] obtain row where row: "row \<in> set M" "py_index M a = Inr row"
    by blast
  with sq have "length row = length M" by (simp add: list_all_iff)
  with py_index_inside[of row b] b obtain v where "py_index row b = Inr v" by auto
  with row show ?thesis by (simp add: matrix_at_def)
qed

lemma cycle_length_inside:
  assumes ne: "t \<noteq> []"
    and sq: "list_all (\<lambda>row. length row = length M) M"
    and ok: "list_all (\<lambda>i. - int (length M) \<le> i \<and> i < int (length M)) t"
  shows "\<exists>v. cycle_length M t = Inr v"
proof -
  let ?edges = "map (\<lambda>n. (t ! n, t ! (n + 1))) [0 ..< length t - 1] @ [(t ! (length t - 1), t ! 0)]"
  from ok have nth_ok: "- int (length M) \<le> t ! n \<and> t ! n < int (length M)" if "n < length t" for n
    using that by (simp add: list_all_length)
  have "\<exists>v. matrix_at M edge = Inr v" if "edge \<in> set ?edges" for edge
  proof -
    from that have "(\<exists>n<length t - 1. edge = (t ! n, t ! (n + 1))) \<or> edge = (t ! (length t - 1), t ! 0)"
      by auto
    then have "\<exists>n m. n < length t \<and> m < length t \<and> edge = (t ! n, t ! m)"
    proof
      assume "\<exists>n<length t - 1. edge = (t ! n, t ! (n + 1))"
      then obtain n where "n < length t - 1" "edge = (t ! n, t ! (n + 1))" by blast
      moreover from this have "n < length t" "n + 1 < length t" by linarith+
      ultimately show ?thesis by blast
    next
      assume "edge = (t ! (length t - 1), t ! 0)"
      with ne have "length t - 1 < length t \<and> 0 < length t \<and> edge = (t ! (length t - 1), t ! 0)"
        by simp
      then show ?thesis by blast
    qed
    then obtain n m where nm: "n < length t" "m < length t" and edge: "edge = (t ! n, t ! m)" by blast
    from nth_ok[OF nm(1)] nth_ok[OF nm(2)]
    have "\<exists>v. matrix_at M (t ! n, t ! m) = Inr v"
      by (intro matrix_at_inside[OF sq]) simp_all
    with edge show ?thesis by simp
  qed
  then have "\<exists>ws. traverse (matrix_at M) ?edges = Inr ws"
    by (rule traverse_total)
  then obtain ws where "traverse (matrix_at M) ?edges = Inr ws" ..
  then show ?thesis
    by (simp add: cycle_length_nonempty[OF ne])
qed

text \<open>
  Claim C2, as the code has it. \<^verbatim>\<open>cycle_length\<close> raises \<^verbatim>\<open>IndexError\<close> on the empty tour,
  and on every tour with an index that is at least \<open>N\<close> or less than \<open>- N\<close>, where \<open>N\<close>
  is the number of rows. An index from \<open>- N\<close> to \<open>-1\<close> is not rejected: Python counts it
  from the end, and a non-empty tour of indices from \<open>- N\<close> to \<open>N - 1\<close> into an
  \<open>N \<times> N\<close> matrix has a cycle length.
\<close>

theorem cycle_length_index_error:
  "cycle_length M [] = Inl IndexError \<and>
   (list_ex (\<lambda>i. int (length M) \<le> i \<or> i < - int (length M)) t \<longrightarrow>
      cycle_length M t = Inl IndexError) \<and>
   (t \<noteq> [] \<and> list_all (\<lambda>row. length row = length M) M \<and>
    list_all (\<lambda>i. - int (length M) \<le> i \<and> i < int (length M)) t \<longrightarrow>
      (\<exists>v. cycle_length M t = Inr v))"
  using cycle_length_empty cycle_length_bad_index cycle_length_inside by blast

theorem cycle_length_index_error_witness:
  "list_ex (\<lambda>i. int (length [[0, 1], [1, 0 :: rat]]) \<le> i \<or> i < - int (length [[0, 1], [1, 0 :: rat]])) [0, 2] \<and>
   cycle_length [[0, 1], [1, 0]] [0, 2] = Inl IndexError \<and>
   list_ex (\<lambda>i. int (length [[0, 1], [1, 0 :: rat]]) \<le> i \<or> i < - int (length [[0, 1], [1, 0 :: rat]])) [- 3, 1] \<and>
   cycle_length [[0, 1], [1, 0]] [- 3, 1] = Inl IndexError \<and>
   [0, - 1] \<noteq> ([] :: int list) \<and>
   list_all (\<lambda>row. length row = length [[0, 1], [1, 0 :: rat]]) [[0, 1], [1, 0 :: rat]] \<and>
   list_all (\<lambda>i. - int (length [[0, 1], [1, 0 :: rat]]) \<le> i \<and> i < int (length [[0, 1], [1, 0 :: rat]])) [0, - 1] \<and>
   (\<exists>v. cycle_length [[0, 1], [1, 0]] [0, - 1] = Inr v)"
proof -
  have c: "[0, - 1] \<noteq> ([] :: int list) \<and>
      list_all (\<lambda>row. length row = length [[0, 1], [1, 0 :: rat]]) [[0, 1], [1, 0 :: rat]] \<and>
      list_all (\<lambda>i. - int (length [[0, 1], [1, 0 :: rat]]) \<le> i \<and> i < int (length [[0, 1], [1, 0 :: rat]])) [0, - 1]"
    by simp
  with cycle_length_index_error[of "[[0, 1], [1, 0]]" "[0, - 1]"]
  have d: "\<exists>v. cycle_length [[0, 1], [1, 0]] [0, - 1] = Inr v" by blast
  have a: "list_ex (\<lambda>i. int (length [[0, 1], [1, 0 :: rat]]) \<le> i \<or> i < - int (length [[0, 1], [1, 0 :: rat]])) [0, 2]"
    by simp
  have b: "list_ex (\<lambda>i. int (length [[0, 1], [1, 0 :: rat]]) \<le> i \<or> i < - int (length [[0, 1], [1, 0 :: rat]])) [- 3, 1]"
    by simp
  from a cycle_length_index_error[of "[[0, 1], [1, 0]]" "[0, 2]"]
  have "cycle_length [[0, 1], [1, 0]] [0, 2] = Inl IndexError" by blast
  moreover from b cycle_length_index_error[of "[[0, 1], [1, 0]]" "[- 3, 1]"]
  have "cycle_length [[0, 1], [1, 0]] [- 3, 1] = Inl IndexError" by blast
  ultimately show ?thesis using a b c d by blast
qed

text \<open>
  The tour \<open>[0, -1]\<close> holds a negative index and is evaluated all the same: \<open>-1\<close> is the
  last projection, and the cycle is \<open>M[0][5] + M[5][0] = 90\<close>.
\<close>

theorem cycle_length_negative_index_accepted:
  "list_ex (\<lambda>i. i < 0) [0, - 1 :: int] \<and> tsp_cycle [0, - 1] = Inr 90"
  by (simp add: tsp_cycle_def adj_mat_ANGLES_6s cycle_length_def matrix_at_def py_index_def)

subsection \<open>Speedup\<close>

text \<open>
  Claim C3, as the code has it. The speedup is the quotient of the conventional by the
  optimal cycle length when the latter is not zero. On a zero optimal length nothing is
  raised: the NumPy division yields \<^verbatim>\<open>nan\<close> for \<open>0 / 0\<close>, \<^verbatim>\<open>inf\<close> for a positive and
  \<^verbatim>\<open>-inf\<close> for a negative numerator.
\<close>

theorem speedup_quotient:
  "(tsp \<noteq> 0 \<longrightarrow> speedup conv tsp = Inr (Finite (conv / tsp))) \<and>
   speedup conv 0 = Inr (if conv = 0 then NaN else if 0 < conv then PosInf else NegInf)"
  by (simp add: speedup_def)

theorem speedup_quotient_witness:
  "(225 :: rat) \<noteq> 0 \<and> speedup (585 / 2) 225 = Inr (Finite (13 / 10)) \<and>
   speedup (585 / 2) 0 = Inr PosInf"
  using speedup_quotient[of 225 "585 / 2"] by simp

text \<open>
  The tour \<open>[0]\<close> has the cycle length \<open>M[0][0] = 0\<close>; dividing the conventional length
  by it gives \<^verbatim>\<open>inf\<close> and no \<^verbatim>\<open>ZeroDivisionError\<close>.
\<close>

lemma tsp_cycle_single: "tsp_cycle [0] = Inr 0"
  by (simp add: tsp_cycle_def adj_mat_ANGLES_6s cycle_length_def matrix_at_def py_index_def)

theorem speedup_zero_no_exception:
  "tsp_cycle [0] = Inr 0 \<and> conv_cycle = Inr (585 / 2) \<and>
   speedup (585 / 2) 0 = Inr PosInf \<and> speedup (585 / 2) 0 \<noteq> Inl ZeroDivisionError"
  using tsp_cycle_single conv_cycle_value by (simp add: speedup_def)

section \<open>The configuration space is the lexicographic power of the table\<close>


lemma length_concat_blocks:
  assumes "\<And>x. x \<in> set xs \<Longrightarrow> length (g x) = m"
  shows "length (concat (map g xs)) = length xs * m"
  using assms by (induction xs) simp_all

lemma nth_concat_blocks:
  assumes "\<And>x. x \<in> set xs \<Longrightarrow> length (g x) = m" and "idx < length xs * m"
  shows "concat (map g xs) ! idx = g (xs ! (idx div m)) ! (idx mod m)"
  using assms
proof (induction xs arbitrary: idx)
  case Nil
  then show ?case by simp
next
  case (Cons x xs)
  have lx: "length (g x) = m" using Cons.prems(1) by simp
  from Cons.prems(2) have m: "0 < m" by (cases m) simp_all
  show ?case
  proof (cases "idx < m")
    case True
    then show ?thesis by (simp add: nth_append lx)
  next
    case False
    then have ge: "m \<le> idx" by simp
    then have d: "idx div m = Suc ((idx - m) div m)"
      using m by (simp add: le_div_geq)
    from ge have r: "idx mod m = (idx - m) mod m"
      by (simp add: le_mod_geq)
    from Cons.prems(2) ge have "idx - m < length xs * m" by simp
    with Cons.IH[of "idx - m"] Cons.prems(1)
    have "concat (map g xs) ! (idx - m) = g (xs ! ((idx - m) div m)) ! ((idx - m) mod m)"
      by simp
    with False show ?thesis by (simp add: nth_append lx d r)
  qed
qed

lemma length_product_pools: "length (product_pools pool n) = length pool ^ n"
  by (induction n) (simp_all add: length_concat_blocks[where m = "length pool"])

lemma product_pools_elem_length: "x \<in> set (product_pools pool n) \<Longrightarrow> length x = n"
  by (induction n arbitrary: x) auto

lemma base_digits_Suc:
  "base_digits b (Suc n) idx = base_digits b n (idx div b) @ [idx mod b]"
proof -
  have "(idx div b ^ (Suc n - 1 - p)) mod b = (idx div b div b ^ (n - 1 - p)) mod b" if "p < n" for p
  proof -
    from that have "Suc n - 1 - p = Suc (n - 1 - p)" by simp
    then show ?thesis by (simp add: div_mult2_eq)
  qed
  then have "map (\<lambda>p. (idx div b ^ (Suc n - 1 - p)) mod b) [0 ..< n]
      = map (\<lambda>p. (idx div b div b ^ (n - 1 - p)) mod b) [0 ..< n]"
    by simp
  then show ?thesis by (simp add: base_digits_def)
qed

lemma product_pools_nth:
  "idx < length pool ^ n \<Longrightarrow>
     product_pools pool n ! idx = map (\<lambda>d. pool ! d) (base_digits (length pool) n idx)"
proof (induction n arbitrary: idx)
  case 0
  then show ?case by (simp add: base_digits_def)
next
  case (Suc n)
  let ?m = "length pool"
  from Suc.prems have m: "0 < ?m" by (cases "?m") simp_all
  from Suc.prems have idx: "idx < length (product_pools pool n) * ?m"
    by (simp add: length_product_pools mult.commute)
  then have q: "idx div ?m < ?m ^ n"
    by (simp add: length_product_pools less_mult_imp_div_less)
  from m have r: "idx mod ?m < ?m" by simp
  have "product_pools pool (Suc n) ! idx
      = map (\<lambda>y. product_pools pool n ! (idx div ?m) @ [y]) pool ! (idx mod ?m)"
    using nth_concat_blocks[of "product_pools pool n" "\<lambda>x. map (\<lambda>y. x @ [y]) pool" ?m idx] idx
    by simp
  also have "\<dots> = product_pools pool n ! (idx div ?m) @ [pool ! (idx mod ?m)]"
    using r by simp
  also have "\<dots> = map (\<lambda>d. pool ! d) (base_digits ?m n (idx div ?m)) @ [pool ! (idx mod ?m)]"
    using Suc.IH[OF q] by simp
  finally show ?case by (simp add: base_digits_Suc)
qed

lemma traverse_hstack:
  assumes "0 < n"
  shows "traverse hstack (product_pools pool n) = Inr (map concat (product_pools pool n))"
proof (rule traverse_Inr_map)
  fix x assume "x \<in> set (product_pools pool n)"
  then have "length x = n" by (rule product_pools_elem_length)
  with assms have "x \<noteq> []" by auto
  then show "hstack x = Inr (concat x)" by (simp add: hstack_def)
qed

lemma length_concat_tuple:
  assumes "list_all (\<lambda>s. length s = c) pool" and "x \<in> set (product_pools pool n)"
  shows "length (concat x) = c * n"
  using assms(2)
proof (induction n arbitrary: x)
  case 0
  then show ?case by simp
next
  case (Suc n)
  then obtain y z where "y \<in> set (product_pools pool n)" "z \<in> set pool" "x = y @ [z]"
    by auto
  with Suc.IH[of y] assms(1) show ?case by (simp add: list_all_iff)
qed

lemma vstack_rows:
  assumes "rows \<noteq> []" and "list_all (\<lambda>r. length r = c) rows"
  shows "vstack rows = Inr rows"
  using assms by (cases rows) (auto simp: vstack_def list_all_iff)

lemma nqubit_angles_Inr:
  assumes n: "1 \<le> n" and rect: "list_all (\<lambda>s. length s = c) pool" and ne: "pool \<noteq> []"
  shows "nqubit_angles pool n = Inr (map concat (product_pools pool (nat n)))"
proof -
  from n have pos: "0 < nat n" by simp
  have "product_pools pool (nat n) \<noteq> []"
    using length_product_pools[of pool "nat n"] ne by auto
  then have a: "map concat (product_pools pool (nat n)) \<noteq> []" by simp
  have b: "list_all (\<lambda>r. length r = c * nat n) (map concat (product_pools pool (nat n)))"
    using length_concat_tuple[OF rect] by (simp add: list_all_iff)
  from n have "product_repeat pool n = Inr (product_pools pool (nat n))"
    by (simp add: product_repeat_def)
  then show ?thesis
    by (simp add: nqubit_angles_def traverse_hstack[OF pos] vstack_rows[OF a b])
qed

text \<open>
  Claim C6. For every qubit count \<open>n\<close> of at least one, \<^verbatim>\<open>nqubit_angles(ANGLES_6s, n)\<close>
  returns \<open>6^n\<close> settings of \<open>2n\<close> components each, and the setting at index \<open>idx\<close>
  is the concatenation of the base settings selected by the \<open>n\<close> base-6 digits of
  \<open>idx\<close>, most significant digit first: the last qubit varies fastest.
\<close>

theorem nqubit_angles_enumeration:
  assumes "1 \<le> n"
  shows "\<exists>angles. nqubit_angles ANGLES_6s n = Inr angles \<and>
           length angles = 6 ^ nat n \<and>
           list_all (\<lambda>s. length s = 2 * nat n) angles \<and>
           (\<forall>idx < 6 ^ nat n.
              angles ! idx = concat (map (\<lambda>d. ANGLES_6s ! d) (base_digits 6 (nat n) idx)))"
proof -
  let ?A = "map concat (product_pools ANGLES_6s (nat n))"
  have rect: "list_all (\<lambda>s. length s = 2) ANGLES_6s" and ne: "ANGLES_6s \<noteq> []"
    and six: "length ANGLES_6s = 6"
    by (simp_all add: ANGLES_6s_def)
  have "nqubit_angles ANGLES_6s n = Inr ?A"
    by (rule nqubit_angles_Inr[OF assms rect ne])
  moreover have len: "length ?A = 6 ^ nat n"
    by (simp add: length_product_pools six)
  moreover have "list_all (\<lambda>s. length s = 2 * nat n) ?A"
    using length_concat_tuple[OF rect] by (simp add: list_all_iff)
  moreover have "\<forall>idx < 6 ^ nat n.
      ?A ! idx = concat (map (\<lambda>d. ANGLES_6s ! d) (base_digits 6 (nat n) idx))"
    using product_pools_nth[of _ ANGLES_6s "nat n"]
    by (simp add: six length_product_pools)
  ultimately show ?thesis by blast
qed

theorem nqubit_angles_enumeration_witness:
  "(1::int) \<le> 2 \<and>
   (\<exists>angles. nqubit_angles ANGLES_6s 2 = Inr angles \<and> length angles = 36 \<and>
      list_all (\<lambda>s. length s = 4) angles \<and> angles ! 9 = [45, 0, - (45 / 2), 0])"
proof -
  have h: "(1::int) \<le> 2" by simp
  from nqubit_angles_enumeration[OF h] obtain angles where
    a: "nqubit_angles ANGLES_6s 2 = Inr angles" "length angles = 6 ^ nat 2"
      "list_all (\<lambda>s. length s = 2 * nat 2) angles"
    and e: "\<forall>idx < 6 ^ nat 2. angles ! idx = concat (map (\<lambda>d. ANGLES_6s ! d) (base_digits 6 (nat 2) idx))"
    by blast
  have "(9::nat) < 6 ^ nat 2" by simp
  with e have "angles ! 9 = concat (map (\<lambda>d. ANGLES_6s ! d) (base_digits 6 (nat 2) 9))"
    by blast
  also have "base_digits 6 (nat 2) 9 = [1, 3]"
    by code_simp
  finally have "angles ! 9 = [45, 0, - (45 / 2), 0]"
    by (simp add: ANGLES_6s_def)
  with a h show ?thesis by simp
qed

text \<open>
  Claim C7. For every qubit count below one, and every table, \<^verbatim>\<open>nqubit_angles\<close> fails:
  the argument is refused. From \<open>- 2^63\<close> to \<open>0\<close> the exception is \<^verbatim>\<open>ValueError\<close>
  (\<^verbatim>\<open>itertools.product\<close> refuses a negative count, and for the count zero the only
  tuple is empty and \<^verbatim>\<open>np.hstack\<close> refuses it); below \<open>- 2^63\<close> it is the
  \<^verbatim>\<open>OverflowError\<close> of the conversion of the count.
\<close>

theorem nqubit_angles_rejects:
  "n < 1 \<Longrightarrow>
     nqubit_angles one_qubit_angles n =
       Inl (if n < - (2 ^ 63) then OverflowError else ValueError)"
  by (cases "n < 0")
    (simp_all add: nqubit_angles_def product_repeat_def hstack_def)

theorem nqubit_angles_rejects_witness:
  "(0::int) < 1 \<and> nqubit_angles ANGLES_6s 0 = Inl ValueError \<and>
   (- 1::int) < 1 \<and> nqubit_angles ANGLES_6s (- 1) = Inl ValueError \<and>
   (- 9223372036854775808::int) < 1 \<and>
   nqubit_angles ANGLES_6s (- 9223372036854775808) = Inl ValueError \<and>
   (- 9223372036854775809::int) < 1 \<and>
   nqubit_angles ANGLES_6s (- 9223372036854775809) = Inl OverflowError"
  using nqubit_angles_rejects[of 0 ANGLES_6s] nqubit_angles_rejects[of "- 1" ANGLES_6s]
    nqubit_angles_rejects[of "- 9223372036854775808" ANGLES_6s]
    nqubit_angles_rejects[of "- 9223372036854775809" ANGLES_6s]
  by simp

section \<open>Every entry of the pipeline's matrices lies on the 22.5 degree grid\<close>

lemma ANGLES_6s_on_grid: "s \<in> set ANGLES_6s \<Longrightarrow> q \<in> set s \<Longrightarrow> on_grid q"
proof -
  have "on_grid 0" unfolding on_grid_def by (rule exI[of _ 0]) simp
  moreover have "on_grid 45" unfolding on_grid_def by (rule exI[of _ 2]) simp
  moreover have "on_grid (45 / 2)" unfolding on_grid_def by (rule exI[of _ 1]) simp
  moreover have "on_grid (- (45 / 2))" unfolding on_grid_def by (rule exI[of _ "- 1"]) simp
  moreover have "on_grid (- 45)" unfolding on_grid_def by (rule exI[of _ "- 2"]) simp
  ultimately have g: "\<forall>x\<in>{0, 45, 45 / 2, - (45 / 2), - 45}. on_grid x" by simp
  assume "s \<in> set ANGLES_6s" "q \<in> set s"
  then have "q \<in> {0, 45, 45 / 2, - (45 / 2), - 45}"
    by (auto simp: ANGLES_6s_def)
  with g show ?thesis by blast
qed

lemma product_pools_components:
  "x \<in> set (product_pools pool n) \<Longrightarrow> q \<in> set (concat x) \<Longrightarrow> \<exists>s\<in>set pool. q \<in> set s"
proof (induction n arbitrary: x)
  case 0
  then show ?case by simp
next
  case (Suc n)
  from Suc.prems(1) obtain y z where yz: "y \<in> set (product_pools pool n)" "z \<in> set pool" "x = y @ [z]"
    by auto
  with Suc.prems(2) have "q \<in> set (concat y) \<or> q \<in> set z" by auto
  then show ?case
  proof
    assume "q \<in> set (concat y)"
    with Suc.IH[OF yz(1)] show ?thesis by blast
  next
    assume "q \<in> set z"
    with yz(2) show ?thesis by blast
  qed
qed

lemma grid_distance:
  assumes "on_grid p" "on_grid q"
  shows "\<exists>j::int. 0 \<le> j \<and> j \<le> 4 \<and> \<bar>p - q\<bar> = of_int j * (45 / 2)"
proof -
  from assms obtain m k :: int where m: "- 2 \<le> m" "m \<le> 2" "p = of_int m * (45 / 2)"
    and k: "- 2 \<le> k" "k \<le> 2" "q = of_int k * (45 / 2)"
    unfolding on_grid_def by blast
  have "p - q = rat_of_int (m - k) * (45 / 2)"
    unfolding m(3) k(3) by (simp add: left_diff_distrib)
  then have "\<bar>p - q\<bar> = \<bar>rat_of_int (m - k) * (45 / 2)\<bar>"
    by (rule arg_cong)
  also have "\<dots> = \<bar>rat_of_int (m - k)\<bar> * (45 / 2)"
    by (rule abs_mult_pos[symmetric]) simp
  also have "\<bar>rat_of_int (m - k)\<bar> = rat_of_int \<bar>m - k\<bar>"
    by (rule of_int_abs[symmetric])
  finally have "\<bar>p - q\<bar> = of_int \<bar>m - k\<bar> * (45 / 2)" .
  moreover from m k have "0 \<le> \<bar>m - k\<bar>" "\<bar>m - k\<bar> \<le> 4" by simp_all
  ultimately show ?thesis by blast
qed

lemma max_abs_diff_attained:
  assumes "0 < C"
  shows "\<exists>k<C. max_abs_diff C a b = \<bar>a ! k - b ! k\<bar>"
proof -
  have "finite ((\<lambda>k. \<bar>a ! k - b ! k\<bar>) ` {..<C})" by simp
  moreover from assms have "(\<lambda>k. \<bar>a ! k - b ! k\<bar>) ` {..<C} \<noteq> {}" by auto
  ultimately have "Max ((\<lambda>k. \<bar>a ! k - b ! k\<bar>) ` {..<C}) \<in> (\<lambda>k. \<bar>a ! k - b ! k\<bar>) ` {..<C}"
    by (rule Max_in)
  then show ?thesis by (auto simp: max_abs_diff_def)
qed

lemma trunc_of_int: "trunc (of_int k) = k"
  by (simp add: trunc_def)

lemma grid_entry:
  assumes "0 \<le> j" "j \<le> 4" "x = rat_of_int j * (45 / 2)"
  shows "(\<exists>j::int. x = of_int j * (45 / 2)) \<and> 0 \<le> x \<and> x \<le> 90 \<and> rat_of_int (trunc (x * 2)) = x * 2"
proof -
  have "x * 2 = rat_of_int (j * 45)" using assms(3) by simp
  then have "rat_of_int (trunc (x * 2)) = x * 2"
    by (simp only: trunc_of_int)
  moreover from assms have "0 \<le> x" by simp
  moreover have "x \<le> 90"
  proof -
    from assms(2) have "rat_of_int j \<le> 4" by simp
    then have "rat_of_int j * (45 / 2) \<le> 4 * (45 / 2)"
      by (intro mult_right_mono) simp_all
    with assms(3) show ?thesis by simp
  qed
  ultimately show ?thesis using assms(3) by blast
qed

text \<open>
  Claim C10. The half-wave-plate components of the table are \<open>0, 45, 22.5, -22.5\<close> and
  the quarter-wave-plate components \<open>0, 45, -45\<close>. For every qubit count \<open>n\<close> of at
  least one, every entry of
  \<^verbatim>\<open>adj_mat(nqubit_angles(ANGLES_6s, n))\<close> is an integer multiple of \<open>22.5\<close>, lies between
  \<open>0\<close> and \<open>90\<close>, and its double is an integer, which \<^verbatim>\<open>%d\<close> prints without loss.
\<close>

theorem nqubit_adj_mat_grid:
  assumes "1 \<le> n"
  shows "set (map (\<lambda>s. s ! 0) ANGLES_6s) = {0, 45, 45 / 2, - (45 / 2)} \<and>
         set (map (\<lambda>s. s ! 1) ANGLES_6s) = {0, 45, - 45} \<and>
         (\<exists>M. nqubit_adj_mat n = Inr M \<and>
           list_all (list_all (\<lambda>x. (\<exists>j::int. x = of_int j * (45 / 2)) \<and> 0 \<le> x \<and> x \<le> 90 \<and>
                                  rat_of_int (trunc (x * 2)) = x * 2)) M)"
proof -
  have table: "set (map (\<lambda>s. s ! 0) ANGLES_6s) = {0, 45, 45 / 2, - (45 / 2)} \<and>
         set (map (\<lambda>s. s ! 1) ANGLES_6s) = {0, 45, - 45}"
    by (auto simp: ANGLES_6s_def)
  let ?A = "map concat (product_pools ANGLES_6s (nat n))"
  let ?C = "2 * nat n"
  let ?M = "map (\<lambda>a. map (\<lambda>b. max_abs_diff ?C a b) ?A) ?A"
  have rect: "list_all (\<lambda>s. length s = 2) ANGLES_6s" and ne: "ANGLES_6s \<noteq> []"
    by (simp_all add: ANGLES_6s_def)
  from assms have C: "0 < ?C" by simp
  have A: "nqubit_angles ANGLES_6s n = Inr ?A"
    by (rule nqubit_angles_Inr[OF assms rect ne])
  have len: "list_all (\<lambda>s. length s = ?C) ?A"
    using length_concat_tuple[OF rect] by (simp add: list_all_iff)
  have M: "nqubit_adj_mat n = Inr ?M"
    by (simp add: nqubit_adj_mat_def A adj_mat_Inr[OF len C])
  have grid: "on_grid (a ! k)" if "a \<in> set ?A" "k < ?C" for a k
  proof -
    from that(1) obtain x where x: "x \<in> set (product_pools ANGLES_6s (nat n))" "a = concat x"
      by auto
    from that(1) len have "length a = ?C" by (auto simp: list_all_iff)
    with that(2) have "a ! k \<in> set a" by simp
    with x product_pools_components[OF x(1), of "a ! k"] obtain s
      where "s \<in> set ANGLES_6s" "a ! k \<in> set s" by auto
    then show ?thesis by (rule ANGLES_6s_on_grid)
  qed
  have "(\<exists>j::int. max_abs_diff ?C a b = of_int j * (45 / 2)) \<and> 0 \<le> max_abs_diff ?C a b \<and>
        max_abs_diff ?C a b \<le> 90 \<and>
        rat_of_int (trunc (max_abs_diff ?C a b * 2)) = max_abs_diff ?C a b * 2"
    if "a \<in> set ?A" "b \<in> set ?A" for a b
  proof -
    from max_abs_diff_attained[OF C, of a b] obtain k
      where k: "k < ?C" "max_abs_diff ?C a b = \<bar>a ! k - b ! k\<bar>" by blast
    from grid_distance[OF grid[OF that(1) k(1)] grid[OF that(2) k(1)]] obtain j :: int
      where "0 \<le> j" "j \<le> 4" "\<bar>a ! k - b ! k\<bar> = of_int j * (45 / 2)" by blast
    with k(2) show ?thesis
      by (intro grid_entry[of j]) simp_all
  qed
  then have "list_all (list_all (\<lambda>x. (\<exists>j::int. x = of_int j * (45 / 2)) \<and> 0 \<le> x \<and> x \<le> 90 \<and>
                                  rat_of_int (trunc (x * 2)) = x * 2)) ?M"
    by (simp add: list_all_iff)
  with M table show ?thesis by blast
qed

theorem nqubit_adj_mat_grid_witness:
  "(1::int) \<le> 1 \<and>
   (\<exists>M. nqubit_adj_mat 1 = Inr M \<and>
      list_all (list_all (\<lambda>x. 0 \<le> x \<and> x \<le> 90 \<and> rat_of_int (trunc (x * 2)) = x * 2)) M)"
proof -
  have h: "(1::int) \<le> 1" by simp
  from nqubit_adj_mat_grid[OF h] have "\<exists>M. nqubit_adj_mat 1 = Inr M \<and>
           list_all (list_all (\<lambda>x. (\<exists>j::int. x = of_int j * (45 / 2)) \<and> 0 \<le> x \<and> x \<le> 90 \<and>
                                  rat_of_int (trunc (x * 2)) = x * 2)) M"
    by blast
  then obtain M where
    M: "nqubit_adj_mat 1 = Inr M"
      "list_all (list_all (\<lambda>x. (\<exists>j::int. x = of_int j * (45 / 2)) \<and> 0 \<le> x \<and> x \<le> 90 \<and>
                                  rat_of_int (trunc (x * 2)) = x * 2)) M"
    by blast
  from M(2) have "list_all (list_all (\<lambda>x. 0 \<le> x \<and> x \<le> 90 \<and> rat_of_int (trunc (x * 2)) = x * 2)) M"
    by (simp add: list_all_iff)
  with M(1) h show ?thesis by blast
qed

section \<open>Writing the problem file\<close>

lemma save_tsp_arrays:
  "arrays (save_tsp filename r comment s) r = map (map (\<lambda>x. x * 2)) (arrays s r)"
  by (simp add: save_tsp_def imul_def Let_def)

lemma save_tsp_files:
  "files (save_tsp filename r comment s) filename =
     Some (HEADER filename (length (arrays s r)) comment @ [CHR 0x0A] @
           concat (map (\<lambda>row. join '' '' (map (\<lambda>x. show_int (trunc (x * 2))) row) @ [CHR 0x0A])
                    (arrays s r)) @
           ''EOF'' @ [CHR 0x0A])"
  by (simp add: save_tsp_def imul_def Let_def savetxt_def fmt_d_def comp_def)

text \<open>
  Claim C1 says that \<^verbatim>\<open>save_tsp\<close> leaves its matrix argument as it was. The code
  multiplies the caller's array in place: after the call the array holds twice every
  entry, whatever the state and the reference, and the one-qubit matrix that held
  \<open>45\<close> at \<open>[0][1]\<close> holds \<open>90\<close> there.
\<close>

theorem save_tsp_overwrites_argument:
  "arrays (save_tsp filename r comment s) r = map (map (\<lambda>x. x * 2)) (arrays s r) \<and>
   adj_mat ANGLES_6s = Inr [[0, 45, 45 / 2, 45 / 2, 45, 45],
                            [45, 0, 45 / 2, 135 / 2, 45, 45],
                            [45 / 2, 45 / 2, 0, 45, 45, 45],
                            [45 / 2, 135 / 2, 45, 0, 45, 45],
                            [45, 45, 45, 45, 0, 90],
                            [45, 45, 45, 45, 90, 0]] \<and>
   arrays (save_tsp ''1q_6s.tsp'' 0 ''Wave plate tomography, 1 qubit, six-state''
             \<lparr>arrays = (\<lambda>r. [])(0 := [[0, 45, 45 / 2, 45 / 2, 45, 45],
                                       [45, 0, 45 / 2, 135 / 2, 45, 45],
                                       [45 / 2, 45 / 2, 0, 45, 45, 45],
                                       [45 / 2, 135 / 2, 45, 0, 45, 45],
                                       [45, 45, 45, 45, 0, 90],
                                       [45, 45, 45, 45, 90, 0]]),
              files = (\<lambda>f. None)\<rparr>) 0 =
     [[0, 90, 45, 45, 90, 90],
      [90, 0, 45, 135, 90, 90],
      [45, 45, 0, 90, 90, 90],
      [45, 135, 90, 0, 90, 90],
      [90, 90, 90, 90, 0, 180],
      [90, 90, 90, 90, 180, 0]]"
  by (simp add: save_tsp_arrays adj_mat_ANGLES_6s)

lemma trunc_abs_le: "\<bar>rat_of_int (trunc y)\<bar> \<le> \<bar>y\<bar>"
proof (cases "0 \<le> y")
  case True
  then have "0 \<le> rat_of_int \<lfloor>y\<rfloor>" by simp
  with True show ?thesis by (simp add: trunc_def)
next
  case False
  then have "y \<le> rat_of_int \<lceil>y\<rceil>" "rat_of_int \<lceil>y\<rceil> \<le> 0"
    by (simp_all add: ceiling_le_iff)
  with False show ?thesis by (simp add: trunc_def)
qed

lemma trunc_error: "\<bar>y - rat_of_int (trunc y)\<bar> < 1"
proof (cases "0 \<le> y")
  case True
  have "rat_of_int \<lfloor>y\<rfloor> \<le> y" "y < rat_of_int \<lfloor>y\<rfloor> + 1" by linarith+
  with True show ?thesis by (simp add: trunc_def)
next
  case False
  have "y \<le> rat_of_int \<lceil>y\<rceil>" "rat_of_int \<lceil>y\<rceil> < y + 1" by linarith+
  with False show ?thesis by (simp add: trunc_def)
qed

text \<open>
  Claim C9, as the code has it. \<^verbatim>\<open>save_tsp\<close> always writes the file: the header, a
  blank line, one line per row and \<^verbatim>\<open>EOF\<close>, each entry printed as twice the cost with
  its fraction dropped (\<^verbatim>\<open>%d\<close> rounds toward zero, off by less than one and never away
  from zero). For a cost that is a half of an integer the printed integer is exactly
  twice the cost. Nothing is checked and nothing is raised for any other cost.
\<close>

theorem save_tsp_truncates:
  "files (save_tsp filename r comment s) filename =
     Some (HEADER filename (length (arrays s r)) comment @ [CHR 0x0A] @
           concat (map (\<lambda>row. join '' '' (map (\<lambda>x. show_int (trunc (x * 2))) row) @ [CHR 0x0A])
                    (arrays s r)) @
           ''EOF'' @ [CHR 0x0A]) \<and>
   ((\<exists>h::int. x = of_int h / 2) \<longrightarrow> rat_of_int (trunc (x * 2)) = x * 2) \<and>
   \<bar>rat_of_int (trunc (x * 2))\<bar> \<le> \<bar>x * 2\<bar> \<and>
   \<bar>x * 2 - rat_of_int (trunc (x * 2))\<bar> < 1"
proof -
  have "rat_of_int (trunc (x * 2)) = x * 2" if "\<exists>h::int. x = of_int h / 2"
  proof -
    from that obtain h :: int where "x = of_int h / 2" ..
    then have "x * 2 = rat_of_int h" by simp
    then show ?thesis by (simp only: trunc_of_int)
  qed
  then show ?thesis
    using save_tsp_files trunc_abs_le trunc_error by blast
qed

theorem save_tsp_truncates_witness:
  "(135 / 2 :: rat) = rat_of_int 135 / 2 \<and> rat_of_int (trunc (135 / 2 * 2)) = 135 / 2 * 2"
proof -
  have h: "\<exists>h::int. (135 / 2 :: rat) = of_int h / 2"
    by (rule exI[of _ 135]) simp
  with save_tsp_truncates[of _ _ _ _ "135 / 2"] have "rat_of_int (trunc (135 / 2 * 2)) = 135 / 2 * 2"
    by blast
  then show ?thesis by simp
qed

text \<open>
  The entry \<open>0.375\<close> doubles to \<open>0.75\<close>, whose nearest integer is \<open>1\<close>; the file is
  written, with the entry \<open>0\<close>.
\<close>

theorem save_tsp_silently_truncates:
  "round (3 / 8 * 2 :: rat) = 1 \<and>
   files (save_tsp ''x.tsp'' 0 ''''
            \<lparr>arrays = (\<lambda>r. [])(0 := [[3 / 8]]), files = (\<lambda>f. None)\<rparr>) ''x.tsp'' =
     Some (''NAME : x.tsp'' @ [CHR 0x0A] @
           ''TYPE : TSP'' @ [CHR 0x0A] @
           ''COMMENT : '' @ [CHR 0x0A] @
           ''DIMENSION : 1'' @ [CHR 0x0A] @
           ''EDGE_WEIGHT_TYPE : EXPLICIT'' @ [CHR 0x0A] @
           ''EDGE_WEIGHT_FORMAT : FULL_MATRIX'' @ [CHR 0x0A] @
           ''EDGE_WEIGHT_SECTION'' @ [CHR 0x0A] @ [CHR 0x0A] @
           ''0'' @ [CHR 0x0A] @
           ''EOF'' @ [CHR 0x0A])"
proof -
  have "round (3 / 8 * 2 :: rat) = 1"
    by (simp add: round_def floor_eq_iff)
  moreover have "trunc (3 / 8 * 2) = 0" by (simp add: trunc_def floor_eq_iff)
  moreover have "show_int 0 = ''0''" and "show_nat 1 = ''1''" by code_simp+
  ultimately show ?thesis
    by (simp add: save_tsp_files HEADER_def)
qed

section \<open>Reading the solution file\<close>


lemma int_digits_error: "int_digits acc x = Inl e \<Longrightarrow> e = ValueError"
  by (induction acc x rule: int_digits.induct) (auto split: if_splits)

lemma int_literal_error: "int_literal x = Inl e \<Longrightarrow> e = ValueError"
  by (auto simp: int_literal_def split: list.splits if_splits dest: int_digits_error)

lemma py_int_error: "py_int x = Inl e \<Longrightarrow> e = ValueError"
  by (auto simp: py_int_def split: list.splits if_splits sum.splits dest: int_literal_error)

lemma traverse_Inr_nth:
  "traverse f xs = Inr ys \<Longrightarrow> length ys = length xs \<and> (\<forall>k<length xs. f (xs ! k) = Inr (ys ! k))"
proof (induction xs arbitrary: ys)
  case Nil
  then show ?case by simp
next
  case (Cons x xs)
  from Cons.prems obtain y zs where y: "f x = Inr y" and zs: "traverse f xs = Inr zs"
    and ys: "ys = y # zs"
    by (auto split: sum.splits)
  from Cons.IH[OF zs] have "length zs = length xs" and "\<forall>k<length xs. f (xs ! k) = Inr (zs ! k)"
    by simp_all
  with y ys show ?case by (auto simp: nth_Cons split: nat.splits)
qed

lemma lines_from_first:
  "CHR 0x0A \<notin> set first \<Longrightarrow>
     lines_from cur (first @ CHR 0x0A # rest) = (cur @ first @ [CHR 0x0A]) # lines_from [] rest"
  by (induction first arbitrary: cur) auto

lemma joined_lines_first:
  assumes "CHR 0x0A \<notin> set first"
  shows "joined_lines (first @ CHR 0x0A # rest) = join '' '' (map rstrip (readlines rest))"
  using lines_from_first[OF assms, of "[]" rest]
  by (simp add: joined_lines_def readlines_def)

lemma traverse_py_int_fails:
  assumes "list_ex (\<lambda>tok. py_int tok = Inl ValueError) toks"
  shows "traverse py_int toks = Inl ValueError"
proof -
  from assms obtain tok where tok: "tok \<in> set toks" "py_int tok = Inl ValueError"
    by (auto simp: list_ex_iff)
  from traverse_fails[of tok _ py_int, OF tok] obtain e' where e': "traverse py_int toks = Inl e'" ..
  from traverse_Inl_elem[OF e'] obtain x where "py_int x = Inl e'" ..
  then have "e' = ValueError" by (rule py_int_error)
  with e' show ?thesis by simp
qed

lemma traverse_py_int_succeeds:
  assumes "list_all (\<lambda>tok. py_int tok \<noteq> Inl ValueError) toks"
  shows "\<exists>path. traverse py_int toks = Inr path"
proof (rule traverse_total)
  fix x assume "x \<in> set toks"
  with assms have ne: "py_int x \<noteq> Inl ValueError" by (simp add: list_all_iff)
  show "\<exists>v. py_int x = Inr v"
  proof (cases "py_int x")
    case (Inl e)
    with py_int_error[OF Inl] ne show ?thesis by simp
  next
    case (Inr v)
    then show ?thesis by blast
  qed
qed

lemma get_projs_no_second_line:
  assumes "fs filename = Some text" and "length (readlines text) \<le> 1"
  shows "get_projs fs filename = Inl ValueError"
proof -
  from assms(2) have "drop 1 (readlines text) = []" by simp
  then have "joined_lines text = []" by (simp add: joined_lines_def)
  then have "split_sp (joined_lines text) = [[]]" by (simp add: split_sp_def)
  moreover have "py_int [] = Inl ValueError" by (simp add: py_int_def strip_def)
  ultimately show ?thesis using assms(1) by (simp add: get_projs_def)
qed

text \<open>
  Claim C8, as the code has it. On every file, \<^verbatim>\<open>get_projs\<close> discards the first line
  whatever it says, strips the trailing spaces and newlines of the other lines, joins
  them with single spaces, cuts the result at every single space and converts each token
  with \<^verbatim>\<open>int\<close>. It fails with \<^verbatim>\<open>ValueError\<close> as soon as one token is not an integer
  literal (an empty token, from two spaces in a row, a blank line or a file with no line
  after the first, is not one); otherwise it returns one integer per token, in order.
  The length of the result is never compared with a dimension.
\<close>

theorem get_projs_tokens:
  assumes "fs filename = Some text"
  shows "get_projs fs filename = traverse py_int (split_sp (joined_lines text)) \<and>
         (list_ex (\<lambda>tok. py_int tok = Inl ValueError) (split_sp (joined_lines text)) \<longrightarrow>
            get_projs fs filename = Inl ValueError) \<and>
         (list_all (\<lambda>tok. py_int tok \<noteq> Inl ValueError) (split_sp (joined_lines text)) \<longrightarrow>
            (\<exists>path. get_projs fs filename = Inr path \<and>
               length path = length (split_sp (joined_lines text)) \<and>
               (\<forall>k<length path. py_int (split_sp (joined_lines text) ! k) = Inr (path ! k)))) \<and>
         (\<forall>first rest. CHR 0x0A \<notin> set first \<and> text = first @ CHR 0x0A # rest \<longrightarrow>
            joined_lines text = join '' '' (map rstrip (readlines rest))) \<and>
         (length (readlines text) \<le> 1 \<longrightarrow> get_projs fs filename = Inl ValueError)"
proof -
  let ?toks = "split_sp (joined_lines text)"
  have g: "get_projs fs filename = traverse py_int ?toks"
    using assms by (simp add: get_projs_def)
  moreover have "get_projs fs filename = Inl ValueError"
    if "list_ex (\<lambda>tok. py_int tok = Inl ValueError) ?toks"
    using traverse_py_int_fails[OF that] g by simp
  moreover have "\<exists>path. get_projs fs filename = Inr path \<and> length path = length ?toks \<and>
               (\<forall>k<length path. py_int (?toks ! k) = Inr (path ! k))"
    if "list_all (\<lambda>tok. py_int tok \<noteq> Inl ValueError) ?toks"
  proof -
    from traverse_py_int_succeeds[OF that] obtain path where p: "traverse py_int ?toks = Inr path" ..
    from traverse_Inr_nth[OF p] g p show ?thesis by simp
  qed
  moreover have "\<forall>first rest. CHR 0x0A \<notin> set first \<and> text = first @ CHR 0x0A # rest \<longrightarrow>
            joined_lines text = join '' '' (map rstrip (readlines rest))"
    using joined_lines_first by blast
  moreover have "length (readlines text) \<le> 1 \<longrightarrow> get_projs fs filename = Inl ValueError"
    using get_projs_no_second_line[of fs filename "text", OF assms] by blast
  ultimately show ?thesis by blast
qed

theorem get_projs_tokens_witness:
  "((\<lambda>f. None)(''1q_6s.sol'' \<mapsto> ''6\<newline>0 5 3 \<newline>4 1 2 \<newline>'')) ''1q_6s.sol''
      = Some (''6\<newline>0 5 3 \<newline>4 1 2 \<newline>'') \<and>
   list_all (\<lambda>tok. py_int tok \<noteq> Inl ValueError)
     (split_sp (joined_lines ''6\<newline>0 5 3 \<newline>4 1 2 \<newline>'')) \<and>
   CHR 0x0A \<notin> set ''6'' \<and>
   ''6\<newline>0 5 3 \<newline>4 1 2 \<newline>'' = ''6'' @ CHR 0x0A # ''0 5 3 \<newline>4 1 2 \<newline>'' \<and>
   joined_lines ''6\<newline>0 5 3 \<newline>4 1 2 \<newline>''
      = join '' '' (map rstrip (readlines ''0 5 3 \<newline>4 1 2 \<newline>'')) \<and>
   get_projs ((\<lambda>f. None)(''1q_6s.sol'' \<mapsto> ''6\<newline>0 5 3 \<newline>4 1 2 \<newline>'')) ''1q_6s.sol''
      = Inr [0, 5, 3, 4, 1, 2] \<and>
   ((\<lambda>f. None)(''bad.sol'' \<mapsto> ''3\<newline>0 x 3\<newline>'')) ''bad.sol'' = Some ''3\<newline>0 x 3\<newline>'' \<and>
   list_ex (\<lambda>tok. py_int tok = Inl ValueError) (split_sp (joined_lines ''3\<newline>0 x 3\<newline>'')) \<and>
   get_projs ((\<lambda>f. None)(''bad.sol'' \<mapsto> ''3\<newline>0 x 3\<newline>'')) ''bad.sol'' = Inl ValueError \<and>
   ((\<lambda>f. None)(''short.sol'' \<mapsto> ''6'')) ''short.sol'' = Some ''6'' \<and>
   length (readlines ''6'') \<le> 1 \<and>
   get_projs ((\<lambda>f. None)(''short.sol'' \<mapsto> ''6'')) ''short.sol'' = Inl ValueError"
proof -
  let ?good = "''6\<newline>0 5 3 \<newline>4 1 2 \<newline>''"
  let ?fs = "(\<lambda>f. None)(''1q_6s.sol'' \<mapsto> ?good)"
  have a: "?fs ''1q_6s.sol'' = Some ?good" by simp
  have b: "list_all (\<lambda>tok. py_int tok \<noteq> Inl ValueError) (split_sp (joined_lines ?good))"
    by code_simp
  have c: "CHR 0x0A \<notin> set ''6'' \<and> ?good = ''6'' @ CHR 0x0A # ''0 5 3 \<newline>4 1 2 \<newline>''"
    by simp
  note good = get_projs_tokens[of ?fs "''1q_6s.sol''" ?good, OF a]
  from good c have d: "joined_lines ?good = join '' '' (map rstrip (readlines ''0 5 3 \<newline>4 1 2 \<newline>''))"
    by blast
  have "traverse py_int (split_sp (join '' '' (map rstrip (readlines ''0 5 3 \<newline>4 1 2 \<newline>''))))
      = Inr [0, 5, 3, 4, 1, 2]"
    by code_simp
  with good d have e: "get_projs ?fs ''1q_6s.sol'' = Inr [0, 5, 3, 4, 1, 2]"
    by simp
  let ?bad = "(\<lambda>f. None)(''bad.sol'' \<mapsto> ''3\<newline>0 x 3\<newline>'')"
  have a': "?bad ''bad.sol'' = Some ''3\<newline>0 x 3\<newline>''" by simp
  have b': "list_ex (\<lambda>tok. py_int tok = Inl ValueError) (split_sp (joined_lines ''3\<newline>0 x 3\<newline>''))"
    by code_simp
  with get_projs_tokens[of ?bad "''bad.sol''" "''3\<newline>0 x 3\<newline>''", OF a']
  have c': "get_projs ?bad ''bad.sol'' = Inl ValueError" by blast
  let ?short = "(\<lambda>f. None)(''short.sol'' \<mapsto> ''6'')"
  have a'': "?short ''short.sol'' = Some ''6''" by simp
  have b'': "length (readlines ''6'') \<le> 1" by code_simp
  with get_projs_tokens[of ?short "''short.sol''" "''6''", OF a'']
  have c'': "get_projs ?short ''short.sol'' = Inl ValueError" by blast
  from a b c d e a' b' c' a'' b'' c'' show ?thesis by blast
qed

text \<open>
  A solution file that announces six indices and holds three is read without complaint;
  one that announces three and holds them two spaces apart is refused.
\<close>

theorem get_projs_ignores_dimension:
  "get_projs ((\<lambda>f. None)(''1q_6s.sol'' \<mapsto> ''6\<newline>0 5 3 \<newline>'')) ''1q_6s.sol''
     = Inr [0, 5, 3] \<and>
   get_projs ((\<lambda>f. None)(''1q_6s.sol'' \<mapsto> ''3\<newline>0  5 3\<newline>'')) ''1q_6s.sol''
     = Inl ValueError"
  by code_simp

end
